theory Spec2Isabelle
  imports Complex_Main "HOL-Library.Sublist" "HOL-Library.Multiset" "HOL-Library.Product_Lexorder"
begin

section \<open>Reels ranking dashboard: the metric, ranking, filter and pagination pipeline\<close>

text \<open>
  A shallow embedding of \<^verbatim>\<open>src/components/ReelsRankingDashboard.jsx\<close>: the
  derivation of the per-reel metrics in \<^verbatim>\<open>fetchData\<close>, the top-10 effect, the
  filtered and sorted table, its pagination and the aggregate statistics. A thrown
  TypeError is the error value of a sum type; the charts and the markup are not modelled.
\<close>

subsection \<open>JavaScript numbers\<close>

text \<open>
  A JavaScript number is a finite value, one of the two infinities, or NaN. Finite
  arithmetic is exact here: the rounding of IEEE doubles, overflow of a finite result to
  an infinity and the sign of zero are not represented. The special values follow
  IEEE 754 as JavaScript does: \<^verbatim>\<open>x/0\<close> is an infinity or NaN, \<^verbatim>\<open>Infinity - Infinity\<close>
  and \<^verbatim>\<open>0 * Infinity\<close> are NaN, and NaN is absorbing.
\<close>

datatype jsnum = Fin real | PosInf | NegInf | NaN

fun jneg :: "jsnum \<Rightarrow> jsnum" where
  "jneg (Fin a) = Fin (- a)"
| "jneg PosInf = NegInf"
| "jneg NegInf = PosInf"
| "jneg NaN = NaN"

fun jadd :: "jsnum \<Rightarrow> jsnum \<Rightarrow> jsnum" where
  "jadd NaN _ = NaN"
| "jadd _ NaN = NaN"
| "jadd (Fin a) (Fin b) = Fin (a + b)"
| "jadd (Fin a) PosInf = PosInf"
| "jadd (Fin a) NegInf = NegInf"
| "jadd PosInf (Fin b) = PosInf"
| "jadd NegInf (Fin b) = NegInf"
| "jadd PosInf PosInf = PosInf"
| "jadd NegInf NegInf = NegInf"
| "jadd PosInf NegInf = NaN"
| "jadd NegInf PosInf = NaN"

definition jsub :: "jsnum \<Rightarrow> jsnum \<Rightarrow> jsnum" where
  "jsub a b = jadd a (jneg b)"

text \<open>The sign of a number, as an infinity of that sign; zero and NaN have none.\<close>

fun jsign :: "jsnum \<Rightarrow> jsnum" where
  "jsign (Fin a) = (if 0 < a then PosInf else if a < 0 then NegInf else NaN)"
| "jsign PosInf = PosInf"
| "jsign NegInf = NegInf"
| "jsign NaN = NaN"

fun jmul :: "jsnum \<Rightarrow> jsnum \<Rightarrow> jsnum" where
  "jmul (Fin a) (Fin b) = Fin (a * b)"
| "jmul NaN _ = NaN"
| "jmul _ NaN = NaN"
| "jmul PosInf b = jsign b"
| "jmul NegInf b = jneg (jsign b)"
| "jmul a PosInf = jsign a"
| "jmul a NegInf = jneg (jsign a)"

fun jdiv :: "jsnum \<Rightarrow> jsnum \<Rightarrow> jsnum" where
  "jdiv NaN _ = NaN"
| "jdiv _ NaN = NaN"
| "jdiv (Fin a) (Fin b) = (if b = 0 then jsign (Fin a) else Fin (a / b))"
| "jdiv (Fin a) PosInf = Fin 0"
| "jdiv (Fin a) NegInf = Fin 0"
| "jdiv PosInf (Fin b) = (if 0 \<le> b then PosInf else NegInf)"
| "jdiv NegInf (Fin b) = (if 0 \<le> b then NegInf else PosInf)"
| "jdiv PosInf _ = NaN"
| "jdiv NegInf _ = NaN"

text \<open>\<^verbatim>\<open>Math.log10\<close>: minus infinity at zero, NaN below it.\<close>

fun log10 :: "jsnum \<Rightarrow> jsnum" where
  "log10 (Fin a) = (if 0 < a then Fin (log 10 a) else if a = 0 then NegInf else NaN)"
| "log10 PosInf = PosInf"
| "log10 NegInf = NaN"
| "log10 NaN = NaN"

text \<open>The comparisons \<^verbatim>\<open><\<close> and \<^verbatim>\<open>>=\<close>: false whenever an operand is NaN.\<close>

fun jlt :: "jsnum \<Rightarrow> jsnum \<Rightarrow> bool" where
  "jlt NaN _ = False"
| "jlt _ NaN = False"
| "jlt (Fin a) (Fin b) = (a < b)"
| "jlt (Fin a) PosInf = True"
| "jlt (Fin a) NegInf = False"
| "jlt PosInf _ = False"
| "jlt NegInf NegInf = False"
| "jlt NegInf _ = True"

fun jge :: "jsnum \<Rightarrow> jsnum \<Rightarrow> bool" where
  "jge NaN _ = False"
| "jge _ NaN = False"
| "jge a b = (\<not> jlt a b)"

subsection \<open>Strings and arrays\<close>

text \<open>
  Strings are character lists. \<^verbatim>\<open>toLowerCase\<close> maps the letters A to Z to a to z
  and leaves every other character as it is (JavaScript also lowers letters beyond
  ASCII; Reel URLs are ASCII).
\<close>

definition toLowerCase_char :: "char \<Rightarrow> char" where
  "toLowerCase_char c =
     (let n = (of_char c :: nat) in if 65 \<le> n \<and> n \<le> 90 then char_of (n + 32) else c)"

definition toLowerCase :: "string \<Rightarrow> string" where
  "toLowerCase s = map toLowerCase_char s"

text \<open>\<^verbatim>\<open>s.startsWith(t)\<close> and \<^verbatim>\<open>s.includes(t)\<close>: a search from every position.\<close>

fun startsWith :: "'a list \<Rightarrow> 'a list \<Rightarrow> bool" where
  "startsWith s [] = True"
| "startsWith [] (c # t) = False"
| "startsWith (d # s) (c # t) = (d = c \<and> startsWith s t)"

fun includes_js :: "'a list \<Rightarrow> 'a list \<Rightarrow> bool" where
  "includes_js [] t = startsWith [] t"
| "includes_js (d # s) t = (startsWith (d # s) t \<or> includes_js s t)"

text \<open>
  \<^verbatim>\<open>s.split(c)\<close> for a one-character separator: the pieces between the separators,
  empty pieces included; the empty string gives one empty piece.
\<close>

fun split :: "'a \<Rightarrow> 'a list \<Rightarrow> 'a list list" where
  "split c [] = [[]]"
| "split c (x # xs) =
     (if x = c then [] # split c xs
      else (case split c xs of [] \<Rightarrow> [[x]] | h # t \<Rightarrow> (x # h) # t))"

text \<open>
  \<^verbatim>\<open>xs.slice(start, end)\<close> on arrays and strings: a negative index counts from the
  end, both indices are clamped to the length, and an empty range gives the empty list.
\<close>

definition relative_index :: "nat \<Rightarrow> int \<Rightarrow> nat" where
  "relative_index len i = (if i < 0 then nat (max (int len + i) 0) else nat (min i (int len)))"

definition slice :: "'a list \<Rightarrow> int \<Rightarrow> int \<Rightarrow> 'a list" where
  "slice xs start stop =
     (let k = relative_index (length xs) start; final = relative_index (length xs) stop
      in take (final - k) (drop k xs))"

definition slice_from :: "'a list \<Rightarrow> int \<Rightarrow> 'a list" where
  "slice_from xs start = drop (relative_index (length xs) start) xs"

text \<open>\<^verbatim>\<open>xs[0]\<close>: \<^verbatim>\<open>undefined\<close> (here \<open>None\<close>) on an empty array.\<close>

definition first_elem :: "'a list \<Rightarrow> 'a option" where
  "first_elem xs = (case xs of [] \<Rightarrow> None | x # _ \<Rightarrow> Some x)"

text \<open>
  \<^verbatim>\<open>Array.prototype.sort(comparefn)\<close>. The comparison function returns a number:
  negative puts its first argument first, positive its second, and zero leaves the two
  in their order; a NaN result counts as zero. ECMAScript fixes the result only when the
  comparison is consistent on the elements (its equality is reflexive, symmetric and
  transitive, and both strict orders are transitive): the result is then the stable
  sorted arrangement, which insertion from the right computes. Otherwise the order is
  implementation-defined, and the model takes it from a parameter, the engine.
\<close>

type_synonym 'a comparefn = "'a \<Rightarrow> 'a \<Rightarrow> jsnum"

type_synonym 'a sort_engine = "'a comparefn \<Rightarrow> 'a list \<Rightarrow> 'a list"

definition cmp_neg :: "jsnum \<Rightarrow> bool" where
  "cmp_neg v = jlt v (Fin 0)"

definition cmp_pos :: "jsnum \<Rightarrow> bool" where
  "cmp_pos v = jlt (Fin 0) v"

definition cmp_zero :: "jsnum \<Rightarrow> bool" where
  "cmp_zero v = (\<not> cmp_neg v \<and> \<not> cmp_pos v)"

definition consistent_comparator :: "'a comparefn \<Rightarrow> 'a set \<Rightarrow> bool" where
  "consistent_comparator cmp S =
     (\<forall>a\<in>S. \<forall>b\<in>S. \<forall>c\<in>S.
        cmp_zero (cmp a a) \<and>
        (cmp_zero (cmp a b) \<longrightarrow> cmp_zero (cmp b a)) \<and>
        (cmp_zero (cmp a b) \<and> cmp_zero (cmp b c) \<longrightarrow> cmp_zero (cmp a c)) \<and>
        (cmp_neg (cmp a b) \<and> cmp_neg (cmp b c) \<longrightarrow> cmp_neg (cmp a c)) \<and>
        (cmp_pos (cmp a b) \<and> cmp_pos (cmp b c) \<longrightarrow> cmp_pos (cmp a c)))"

fun sort_insert :: "'a comparefn \<Rightarrow> 'a \<Rightarrow> 'a list \<Rightarrow> 'a list" where
  "sort_insert cmp x [] = [x]"
| "sort_insert cmp x (y # ys) =
     (if cmp_pos (cmp x y) then y # sort_insert cmp x ys else x # y # ys)"

fun stable_sort :: "'a comparefn \<Rightarrow> 'a list \<Rightarrow> 'a list" where
  "stable_sort cmp [] = []"
| "stable_sort cmp (x # xs) = sort_insert cmp x (stable_sort cmp xs)"

definition sort_js :: "'a sort_engine \<Rightarrow> 'a comparefn \<Rightarrow> 'a list \<Rightarrow> 'a list" where
  "sort_js engine cmp xs =
     (if consistent_comparator cmp (set xs) then stable_sort cmp xs else engine cmp xs)"

text \<open>
  One engine: binary insertion, the method V8 applies to short arrays. Each element in
  turn is the pivot; a binary search over the sorted prefix finds its place, going left
  when the pivot compares negative with the middle element and right otherwise. On the
  metric comparisons without a NaN key it returns the stable sorted arrangement
  (\<open>engine_agrees_no_NaN\<close> below).
\<close>

function binary_search :: "'a comparefn \<Rightarrow> 'a \<Rightarrow> 'a list \<Rightarrow> nat \<Rightarrow> nat \<Rightarrow> nat" where
  "binary_search cmp pivot xs left right =
     (if left < right
      then (let mid = left + (right - left) div 2
            in if cmp_neg (cmp pivot (xs ! mid))
               then binary_search cmp pivot xs left mid
               else binary_search cmp pivot xs (mid + 1) right)
      else left)"
  by pat_completeness auto
termination
  by (relation "measure (\<lambda>(cmp, pivot, xs, left, right). right - left)") auto

declare binary_search.simps [simp del]

definition binary_insert :: "'a comparefn \<Rightarrow> 'a list \<Rightarrow> 'a \<Rightarrow> 'a list" where
  "binary_insert cmp pre pivot =
     (let left = binary_search cmp pivot pre 0 (length pre)
      in take left pre @ pivot # drop left pre)"

definition binary_insertion_sort :: "'a sort_engine" where
  "binary_insertion_sort cmp xs = foldl (binary_insert cmp) [] xs"

subsection \<open>Records\<close>

text \<open>
  A parsed CSV row has the columns \<^verbatim>\<open>Reel, Views, Likes, Comments\<close>; the numeric
  columns are finite numbers. The processed record spreads the row and adds the derived
  fields; \<^verbatim>\<open>ShortUrl\<close> is \<^verbatim>\<open>undefined\<close> (\<open>None\<close>) when the URL has no second-from-last
  piece. A top-10 entry spreads the processed record and adds \<^verbatim>\<open>DisplayUrl\<close>.
\<close>

record row =
  Reel :: string
  Views :: real
  Likes :: real
  Comments :: real

record reel = row +
  reel_id :: nat
  EngagementRate :: jsnum
  EngagementScore :: jsnum
  ViralCoefficient :: jsnum
  ShortUrl :: "string option"

record top10_reel = reel +
  DisplayUrl :: string

datatype metric =
  M_Views | M_Likes | M_Comments | M_EngagementRate | M_EngagementScore | M_ViralCoefficient

datatype sort_order = asc | desc

datatype error = TypeError

text \<open>\<^verbatim>\<open>a[rankingMetric]\<close>: the field the selected metric names.\<close>

fun metric_of :: "metric \<Rightarrow> 'a reel_scheme \<Rightarrow> jsnum" where
  "metric_of M_Views r = Fin (Views r)"
| "metric_of M_Likes r = Fin (Likes r)"
| "metric_of M_Comments r = Fin (Comments r)"
| "metric_of M_EngagementRate r = EngagementRate r"
| "metric_of M_EngagementScore r = EngagementScore r"
| "metric_of M_ViralCoefficient r = ViralCoefficient r"

subsection \<open>The metric deriver (fetchData, lines 42 to 64)\<close>

definition shortUrl :: "string \<Rightarrow> string option" where
  "shortUrl u = first_elem (slice (split (CHR ''/'') u) (- 2) (- 1))"

definition process_row :: "row \<Rightarrow> nat \<Rightarrow> reel" where
  "process_row r index =
     (let engagementRate = jmul (jdiv (Fin (Likes r + Comments r)) (Fin (Views r))) (Fin 100);
          engagementScore =
            jmul (jdiv (Fin (Likes r * 1 + Comments r * 3)) (Fin (Views r))) (Fin 100);
          viralCoefficient =
            jdiv (jmul (log10 (Fin (Views r))) engagementRate) (Fin 100)
      in row.extend r
           (reel.fields (index + 1) engagementRate engagementScore viralCoefficient
              (shortUrl (Reel r))))"

fun map_index :: "('a \<Rightarrow> nat \<Rightarrow> 'b) \<Rightarrow> nat \<Rightarrow> 'a list \<Rightarrow> 'b list" where
  "map_index f i [] = []"
| "map_index f i (x # xs) = f x i # map_index f (Suc i) xs"

definition processedData :: "row list \<Rightarrow> reel list" where
  "processedData rows = map_index process_row 0 rows"

subsection \<open>The ranker (the top-10 effect, lines 80 to 93)\<close>

definition compare_desc :: "metric \<Rightarrow> 'a reel_scheme \<Rightarrow> 'a reel_scheme \<Rightarrow> jsnum" where
  "compare_desc m a b = jsub (metric_of m b) (metric_of m a)"

definition compare_asc :: "metric \<Rightarrow> 'a reel_scheme \<Rightarrow> 'a reel_scheme \<Rightarrow> jsnum" where
  "compare_asc m a b = jsub (metric_of m a) (metric_of m b)"

text \<open>
  \<^verbatim>\<open>reel.ShortUrl.slice(-5)\<close> throws a TypeError when \<^verbatim>\<open>ShortUrl\<close> is
  \<^verbatim>\<open>undefined\<close>; a throw inside \<^verbatim>\<open>map\<close> or \<^verbatim>\<open>filter\<close> ends the whole call.
\<close>

definition display_entry :: "reel \<Rightarrow> error + top10_reel" where
  "display_entry r =
     (case ShortUrl r of
        None \<Rightarrow> Inl TypeError
      | Some s \<Rightarrow> Inr (reel.extend r (top10_reel.fields (slice_from s (- 5)))))"

fun map_result :: "('a \<Rightarrow> error + 'b) \<Rightarrow> 'a list \<Rightarrow> error + 'b list" where
  "map_result f [] = Inr []"
| "map_result f (x # xs) =
     (case f x of
        Inl e \<Rightarrow> Inl e
      | Inr y \<Rightarrow> (case map_result f xs of Inl e \<Rightarrow> Inl e | Inr ys \<Rightarrow> Inr (y # ys)))"

definition newTop10 :: "reel sort_engine \<Rightarrow> reel list \<Rightarrow> metric \<Rightarrow> error + top10_reel list" where
  "newTop10 engine data m =
     map_result display_entry (slice (sort_js engine (compare_desc m) data) 0 10)"

subsection \<open>The table: filter, sort, paginate (lines 110 to 125)\<close>

definition filter_pred :: "string \<Rightarrow> reel \<Rightarrow> error + bool" where
  "filter_pred filterValue item =
     (if filterValue = [] then Inr True
      else if includes_js (toLowerCase (Reel item)) (toLowerCase filterValue) then Inr True
      else (case ShortUrl item of
              None \<Rightarrow> Inl TypeError
            | Some s \<Rightarrow> Inr (includes_js (toLowerCase s) (toLowerCase filterValue))))"

fun filter_result :: "('a \<Rightarrow> error + bool) \<Rightarrow> 'a list \<Rightarrow> error + 'a list" where
  "filter_result p [] = Inr []"
| "filter_result p (x # xs) =
     (case p x of
        Inl e \<Rightarrow> Inl e
      | Inr b \<Rightarrow>
          (case filter_result p xs of
             Inl e \<Rightarrow> Inl e
           | Inr ys \<Rightarrow> Inr (if b then x # ys else ys)))"

definition compare_table :: "sort_order \<Rightarrow> metric \<Rightarrow> reel \<Rightarrow> reel \<Rightarrow> jsnum" where
  "compare_table sortOrder m a b =
     (if sortOrder = asc then compare_asc m a b else compare_desc m a b)"

definition filteredData ::
  "reel sort_engine \<Rightarrow> reel list \<Rightarrow> string \<Rightarrow> sort_order \<Rightarrow> metric \<Rightarrow> error + reel list" where
  "filteredData engine data filterValue sortOrder m =
     (case filter_result (filter_pred filterValue) data of
        Inl e \<Rightarrow> Inl e
      | Inr xs \<Rightarrow> Inr (sort_js engine (compare_table sortOrder m) xs))"

definition rowsPerPage :: int where
  "rowsPerPage = 10"

definition paginatedData :: "'a list \<Rightarrow> int \<Rightarrow> 'a list" where
  "paginatedData filtered page = slice filtered ((page - 1) * rowsPerPage) (page * rowsPerPage)"

subsection \<open>Aggregate statistics (lines 239 to 245)\<close>

text \<open>
  Modelled from the spec: \<^verbatim>\<open>_.sumBy\<close> belongs to the lodash library, which is not
  part of the sources. Over zero records the total is 0; over a non-empty list it is
  the sum, added from the left.
\<close>

definition sumBy :: "'a list \<Rightarrow> ('a \<Rightarrow> jsnum) \<Rightarrow> jsnum" where
  "sumBy xs f = (case xs of [] \<Rightarrow> Fin 0 | x # rest \<Rightarrow> foldl (\<lambda>acc y. jadd acc (f y)) (f x) rest)"

text \<open>
  Modelled from the spec: \<^verbatim>\<open>_.meanBy\<close> of lodash, NaN over zero records and the
  sum divided by the number of records otherwise.
\<close>

definition meanBy :: "'a list \<Rightarrow> ('a \<Rightarrow> jsnum) \<Rightarrow> jsnum" where
  "meanBy xs f = (if length xs = 0 then NaN else jdiv (sumBy xs f) (Fin (real (length xs))))"

record stats_record =
  totalViews :: jsnum
  totalLikes :: jsnum
  totalComments :: jsnum
  avgEngagementRate :: jsnum
  avgEngagementScore :: jsnum

definition stats :: "reel list \<Rightarrow> stats_record" where
  "stats data =
     \<lparr>totalViews = sumBy data (metric_of M_Views),
      totalLikes = sumBy data (metric_of M_Likes),
      totalComments = sumBy data (metric_of M_Comments),
      avgEngagementRate = meanBy data (metric_of M_EngagementRate),
      avgEngagementScore = meanBy data (metric_of M_EngagementScore)\<rparr>"

subsection \<open>Component state and its transitions\<close>

text \<open>
  The state variables the pipeline reads and writes. The selected reel and the position
  of its popover only drive the presentation and are left out.
\<close>

record state =
  data :: "reel list"
  loading :: bool
  rankingMetric :: metric
  sortOrder :: sort_order
  filterValue :: string
  page :: int
  top10Data :: "top10_reel list"

definition initial_state :: state where
  "initial_state =
     \<lparr>data = [], loading = True, rankingMetric = M_EngagementScore, sortOrder = desc,
      filterValue = [], page = 1, top10Data = []\<rparr>"

text \<open>
  The fetch settles once: either the parser completes with the rows, or the fetch throws
  and the \<^verbatim>\<open>catch\<close> block only clears \<^verbatim>\<open>loading\<close>.
\<close>

datatype fetch_outcome = Parsed "row list" | Failed

fun fetchData :: "fetch_outcome \<Rightarrow> state \<Rightarrow> state" where
  "fetchData (Parsed rows) s = s\<lparr>data := processedData rows, loading := False\<rparr>"
| "fetchData Failed s = s\<lparr>loading := False\<rparr>"

text \<open>The effect on \<^verbatim>\<open>[data, rankingMetric]\<close>: it assigns only when there are records.\<close>

definition top10_effect :: "reel sort_engine \<Rightarrow> state \<Rightarrow> error + state" where
  "top10_effect engine s =
     (if length (data s) > 0
      then (case newTop10 engine (data s) (rankingMetric s) of
              Inl e \<Rightarrow> Inl e
            | Inr t \<Rightarrow> Inr (s\<lparr>top10Data := t\<rparr>))
      else Inr s)"

datatype event =
  FetchSettled fetch_outcome
| SetRankingMetric metric
| SetSortOrder sort_order
| SetFilterValue string
| Previous
| Next

text \<open>
  The event handlers. The fetch settles while \<^verbatim>\<open>loading\<close> still holds; \<^verbatim>\<open>Next\<close>
  reads the length of the filtered list of the current render.
\<close>

fun step :: "reel sort_engine \<Rightarrow> event \<Rightarrow> state \<Rightarrow> error + state" where
  "step engine (FetchSettled out) s = Inr (if loading s then fetchData out s else s)"
| "step engine (SetRankingMetric m) s = Inr (s\<lparr>rankingMetric := m\<rparr>)"
| "step engine (SetSortOrder ord) s = Inr (s\<lparr>sortOrder := ord\<rparr>)"
| "step engine (SetFilterValue f) s = Inr (s\<lparr>filterValue := f\<rparr>)"
| "step engine Previous s = Inr (s\<lparr>page := max 1 (page s - 1)\<rparr>)"
| "step engine Next s =
     (case filteredData engine (data s) (filterValue s) (sortOrder s) (rankingMetric s) of
        Inl e \<Rightarrow> Inl e
      | Inr xs \<Rightarrow>
          Inr (s\<lparr>page := (if page s * rowsPerPage < int (length xs) then page s + 1
                         else page s)\<rparr>))"

text \<open>
  The states the component passes through: the initial one, and from a state the one
  after a handler, or after the effect has run.
\<close>

inductive reachable :: "reel sort_engine \<Rightarrow> state \<Rightarrow> bool" for engine where
  reachable_initial: "reachable engine initial_state"
| reachable_step: "reachable engine s \<Longrightarrow> step engine e s = Inr s' \<Longrightarrow> reachable engine s'"
| reachable_effect: "reachable engine s \<Longrightarrow> top10_effect engine s = Inr s' \<Longrightarrow> reachable engine s'"

subsection \<open>Notions used to state the properties\<close>

text \<open>The second-from-last element of a list, when it has one.\<close>

definition second_from_last :: "'a list \<Rightarrow> 'a option" where
  "second_from_last xs = (if 2 \<le> length xs then Some (xs ! (length xs - 2)) else None)"

text \<open>
  The specification's wording of the short URL: split on the slash, drop the empty
  segments, take the second-from-last of what remains.
\<close>

definition shortUrl_spec :: "string \<Rightarrow> string option" where
  "shortUrl_spec u = second_from_last (filter (\<lambda>seg. seg \<noteq> []) (split (CHR ''/'') u))"

text \<open>The elements of \<open>xs\<close> at the indices \<open>a \<le> i < b\<close> that exist.\<close>

definition index_range :: "'a list \<Rightarrow> nat \<Rightarrow> nat \<Rightarrow> 'a list" where
  "index_range xs a b = map (\<lambda>i. xs ! i) [a ..< min b (length xs)]"

text \<open>The example row of the specification, and a Reel URL with a trailing slash.\<close>

definition example_row :: row where
  "example_row = \<lparr>Reel = ''https://x/y/aaa111'', Views = 1000, Likes = 100, Comments = 10\<rparr>"

definition trailing_slash_row :: row where
  "trailing_slash_row =
     \<lparr>Reel = ''https://www.instagram.com/reel/Cabc123/'', Views = 1000, Likes = 100,
      Comments = 10\<rparr>"

text \<open>
  The filter string \<open>t\<close> is a case-insensitive substring of \<open>s\<close>: some piece of \<open>s\<close>
  equals \<open>t\<close> up to the case of the letters. A record matches a filter when that holds
  of its Reel URL or of its \<^verbatim>\<open>ShortUrl\<close>.
\<close>

definition ci_substring :: "string \<Rightarrow> string \<Rightarrow> bool" where
  "ci_substring t s = (\<exists>ps u ss. s = ps @ u @ ss \<and> toLowerCase u = toLowerCase t)"


text \<open>
  A list is sorted descending by a metric when every element is \<^verbatim>\<open>>=\<close> every later
  one; ties are in ingestion order when, of two records with the same metric value, the
  one with the smaller id comes first. \<open>no_NaN\<close>: no record has NaN as that metric.
\<close>

definition sorted_desc :: "metric \<Rightarrow> 'a reel_scheme list \<Rightarrow> bool" where
  "sorted_desc m ys = sorted_wrt (\<lambda>a b. jge (metric_of m a) (metric_of m b)) ys"


definition no_NaN :: "metric \<Rightarrow> 'a reel_scheme list \<Rightarrow> bool" where
  "no_NaN m recs = (\<forall>r\<in>set recs. metric_of m r \<noteq> NaN)"

text \<open>
  Ranks of the numbers other than NaN in a linear order: \<open>desc_rank\<close> falls and
  \<open>asc_rank\<close> rises with the number.
\<close>

definition desc_rank :: "jsnum \<Rightarrow> int \<times> real" where
  "desc_rank v = (case v of PosInf \<Rightarrow> (- 1, 0) | Fin a \<Rightarrow> (0, - a) | NegInf \<Rightarrow> (1, 0) | NaN \<Rightarrow> (2, 0))"

definition asc_rank :: "jsnum \<Rightarrow> int \<times> real" where
  "asc_rank v = (case v of NegInf \<Rightarrow> (- 1, 0) | Fin a \<Rightarrow> (0, a) | PosInf \<Rightarrow> (1, 0) | NaN \<Rightarrow> (2, 0))"

text \<open>
  A comparison function that a rank into a linear order represents: positive when the
  first argument ranks above the second, negative when below.
\<close>

definition represents :: "('a \<Rightarrow> 'b::linorder) \<Rightarrow> 'a comparefn \<Rightarrow> 'a set \<Rightarrow> bool" where
  "represents f cmp S =
     (\<forall>a\<in>S. \<forall>b\<in>S. (cmp_pos (cmp a b) \<longleftrightarrow> f b < f a) \<and> (cmp_neg (cmp a b) \<longleftrightarrow> f a < f b))"

text \<open>
  Example data: a second row on another host, the two rows processed, the state after
  they are loaded, three rows of which the middle one has no views, and eight rows with
  four such rows and a tie between the sixth and the eighth.
\<close>

definition other_host_row :: row where
  "other_host_row = \<lparr>Reel = ''https://y/z/bbb222'', Views = 500, Likes = 50, Comments = 5\<rparr>"

definition example_data :: "reel list" where
  "example_data = processedData [example_row, other_host_row]"

definition loaded_state :: state where
  "loaded_state = fetchData (Parsed [example_row, other_host_row]) initial_state"

definition zero_views_rows :: "row list" where
  "zero_views_rows =
     [\<lparr>Reel = ''https://x/y/r1'', Views = 100, Likes = 1, Comments = 0\<rparr>,
      \<lparr>Reel = ''https://x/y/r2'', Views = 0, Likes = 0, Comments = 0\<rparr>,
      \<lparr>Reel = ''https://x/y/r3'', Views = 100, Likes = 2, Comments = 0\<rparr>]"

definition zero_views_state :: state where
  "zero_views_state = fetchData (Parsed zero_views_rows) initial_state"


section \<open>Properties\<close>

subsection \<open>Arrays, slices and the processed records\<close>

lemma first_elem_slice_penultimate:
  "first_elem (slice xs (- 2) (- 1)) = second_from_last xs"
proof (cases "2 \<le> length xs")
  case True
  then have k: "length xs - 2 < length xs" by simp
  have "slice xs (- 2) (- 1) = take 1 (drop (length xs - 2) xs)"
    using True by (simp add: slice_def relative_index_def Let_def nat_diff_distrib' max_def)
  also have "\<dots> = [xs ! (length xs - 2)]"
    using Cons_nth_drop_Suc [OF k] by (metis One_nat_def take0 take_Suc_Cons)
  finally show ?thesis using True by (simp add: first_elem_def second_from_last_def)
next
  case False
  then have "length xs = 0 \<or> length xs = 1" by arith
  then have "slice xs (- 2) (- 1) = []"
    by (auto simp: slice_def relative_index_def Let_def)
  then show ?thesis using False by (simp add: first_elem_def second_from_last_def)
qed

lemma map_index_nth:
  "i < length xs \<Longrightarrow> map_index f k xs ! i = f (xs ! i) (k + i)"
  by (induction xs arbitrary: i k) (auto simp: nth_Cons split: nat.splits)

lemma length_map_index [simp]: "length (map_index f k xs) = length xs"
  by (induction xs arbitrary: k) auto

lemma processedData_nth:
  "i < length rows \<Longrightarrow> processedData rows ! i = process_row (rows ! i) i"
  by (simp add: processedData_def map_index_nth)

lemma length_processedData [simp]: "length (processedData rows) = length rows"
  by (simp add: processedData_def)

lemma ShortUrl_process_row [simp]: "ShortUrl (process_row r i) = shortUrl (Reel r)"
  by (simp add: process_row_def Let_def row.defs reel.defs)

lemma Reel_process_row [simp]: "Reel (process_row r i) = Reel r"
  by (simp add: process_row_def Let_def row.defs reel.defs)

lemma process_row_fields:
  "EngagementRate (process_row r i) = jmul (jdiv (Fin (Likes r + Comments r)) (Fin (Views r))) (Fin 100)"
  "EngagementScore (process_row r i) =
     jmul (jdiv (Fin (Likes r * 1 + Comments r * 3)) (Fin (Views r))) (Fin 100)"
  "ViralCoefficient (process_row r i) =
     jdiv (jmul (log10 (Fin (Views r))) (EngagementRate (process_row r i))) (Fin 100)"
  "reel_id (process_row r i) = i + 1"
  "Views (process_row r i) = Views r"
  "Likes (process_row r i) = Likes r"
  "Comments (process_row r i) = Comments r"
  by (simp_all add: process_row_def Let_def row.defs reel.defs)


lemma split_not_Nil [simp]: "split c s \<noteq> []"
  by (induction s) (auto split: list.splits)

lemma length_split: "length (split c s) = Suc (length (filter (\<lambda>x. x = c) s))"
  by (induction s) (auto split: list.splits)

lemma shortUrl_None_iff: "shortUrl u = None \<longleftrightarrow> CHR ''/'' \<notin> set u"
proof -
  have "shortUrl u = None \<longleftrightarrow> length (split (CHR ''/'') u) < 2"
    by (simp add: shortUrl_def first_elem_slice_penultimate second_from_last_def)
  also have "\<dots> \<longleftrightarrow> filter (\<lambda>x. x = CHR ''/'') u = []"
    by (simp add: length_split)
  also have "\<dots> \<longleftrightarrow> CHR ''/'' \<notin> set u"
    by (auto simp: filter_empty_conv)
  finally show ?thesis .
qed

lemma relative_index_nat: "relative_index n (int k) = min k n"
  by (simp add: relative_index_def min_def)

lemma paginatedData_take_drop:
  assumes "1 \<le> p"
  shows "paginatedData xs p = take 10 (drop (10 * nat (p - 1)) xs)"
proof -
  define k where "k = 10 * nat (p - 1)"
  have a: "(p - 1) * rowsPerPage = int k" "p * rowsPerPage = int (k + 10)"
    using assms by (simp_all add: k_def rowsPerPage_def algebra_simps)
  have "paginatedData xs p = take (min (k + 10) (length xs) - min k (length xs)) (drop (min k (length xs)) xs)"
    unfolding paginatedData_def a slice_def Let_def relative_index_nat ..
  also have "\<dots> = take 10 (drop k xs)"
  proof (cases "k \<le> length xs")
    case True
    then have "min (k + 10) (length xs) - min k (length xs) = min 10 (length (drop k xs))"
      by (simp add: min_def; arith)
    then show ?thesis using True by (simp add: min_def)
  next
    case False
    then show ?thesis by simp
  qed
  finally show ?thesis unfolding k_def .
qed

lemma ceiling_div_10: "\<lceil>real n / 10\<rceil> = int ((n + 9) div 10)"
proof -
  define q where "q = (n + 9) div 10"
  have "n \<le> 10 * q" "10 * q < n + 10" unfolding q_def by arith+
  then have "real n \<le> real (10 * q)" "real (10 * q) < real (n + 10)"
    using of_nat_le_iff of_nat_less_iff by blast+
  then have "real_of_int (int q) - 1 < real n / 10" "real n / 10 \<le> real_of_int (int q)"
    by simp_all
  then show ?thesis unfolding q_def by (rule ceiling_unique)
qed

lemma last_page_arith:
  assumes "0 < (n::nat)"
  shows "min 10 (n - 10 * ((n + 9) div 10 - 1)) = (if n mod 10 = 0 then 10 else n mod 10)"
proof -
  define a b where "a = n div 10" and "b = n mod 10"
  have n: "n = 10 * a + b" and b: "b < 10" by (simp_all add: a_def b_def)
  show ?thesis
  proof (cases "b = 0")
    case True
    then have "0 < a" using assms n by simp
    moreover have "(n + 9) div 10 = a" using True n by simp
    ultimately show ?thesis using True n by (simp add: b_def[symmetric] algebra_simps)
  next
    case False
    then have "(n + 9) div 10 = a + 1" using n b by arith
    then show ?thesis using False n b by (simp add: b_def[symmetric])
  qed
qed

lemma take_drop_index_range: "take n (drop k xs) = index_range xs k (k + n)"
proof (rule nth_equalityI)
  show "length (take n (drop k xs)) = length (index_range xs k (k + n))"
    by (auto simp: index_range_def)
next
  fix i assume "i < length (take n (drop k xs))"
  then have i: "i < n" "k + i < length xs" by auto
  then have "i < min (k + n) (length xs) - k" by arith
  then show "take n (drop k xs) ! i = index_range xs k (k + n) ! i"
    using i by (simp add: index_range_def)
qed

lemma paginatedData_empty_beyond:
  "int (length xs) \<le> (p - 1) * 10 \<Longrightarrow> paginatedData xs p = []"
  by (simp add: paginatedData_def slice_def relative_index_def Let_def rowsPerPage_def min_def)

lemma length_paginatedData:
  "1 \<le> p \<Longrightarrow> length (paginatedData xs p) = min 10 (length xs - 10 * nat (p - 1))"
  by (simp add: paginatedData_take_drop)

lemma paginatedData_nonempty_iff:
  assumes "1 \<le> p"
  shows "paginatedData xs p \<noteq> [] \<longleftrightarrow> p \<le> \<lceil>real (length xs) / 10\<rceil>"
proof -
  have "paginatedData xs p \<noteq> [] \<longleftrightarrow> 0 < length (paginatedData xs p)" by simp
  also have "\<dots> \<longleftrightarrow> 10 * nat (p - 1) < length xs"
    using assms by (simp add: length_paginatedData)
  also have "\<dots> \<longleftrightarrow> p \<le> \<lceil>real (length xs) / 10\<rceil>"
    using assms unfolding ceiling_div_10 by linarith
  finally show ?thesis .
qed

lemma length_last_page:
  assumes "0 < length xs"
  shows "length (paginatedData xs \<lceil>real (length xs) / 10\<rceil>) =
         (if length xs mod 10 = 0 then 10 else length xs mod 10)"
proof -
  have p: "1 \<le> int ((length xs + 9) div 10)" using assms by linarith
  have "nat (int ((length xs + 9) div 10) - 1) = (length xs + 9) div 10 - 1" by simp
  then show ?thesis
    unfolding ceiling_div_10 length_paginatedData [OF p] using last_page_arith [OF assms]
    by simp
qed

lemma concat_pages_take:
  "concat (map (paginatedData xs) [1..int k]) = take (10 * k) xs"
proof (induction k)
  case 0
  show ?case by simp
next
  case (Suc k)
  have "[1..int (Suc k)] = [1..int k] @ [int (Suc k)]"
    using upto_rec2 [of 1 "int (Suc k)"] by simp
  then have "concat (map (paginatedData xs) [1..int (Suc k)]) =
        take (10 * k) xs @ paginatedData xs (int (Suc k))"
    using Suc.IH by simp
  also have "paginatedData xs (int (Suc k)) = take 10 (drop (10 * k) xs)"
    by (simp add: paginatedData_take_drop)
  also have "take (10 * k) xs @ take 10 (drop (10 * k) xs) = take (10 * k + 10) xs"
    by (rule take_add [symmetric])
  also have "10 * k + 10 = 10 * Suc k" by simp
  finally show ?case .
qed

subsection \<open>The derived metrics\<close>



subsection \<open>The short URL\<close>

text \<open>
  Claim C6, as amended. For every record, \<^verbatim>\<open>ShortUrl\<close> is obtained by splitting the
  Reel URL on the slash and taking the second-from-last segment, empty segments counted
  (it is \<^verbatim>\<open>undefined\<close> exactly when the URL has no slash); in particular, for the Reel
  \<^verbatim>\<open>https://x/y/aaa111\<close> the \<^verbatim>\<open>ShortUrl\<close> is \<^verbatim>\<open>y\<close>.
\<close>

theorem shortUrl_second_from_last_segment:
  "i < length rows \<Longrightarrow>
     ShortUrl (processedData rows ! i) = second_from_last (split (CHR ''/'') (Reel (rows ! i))) \<and>
     (ShortUrl (processedData rows ! i) = None \<longleftrightarrow> CHR ''/'' \<notin> set (Reel (rows ! i))) \<and>
     (Reel (rows ! i) = ''https://x/y/aaa111'' \<longrightarrow> ShortUrl (processedData rows ! i) = Some ''y'')"
  by (auto simp: processedData_nth shortUrl_None_iff)
     (auto simp: shortUrl_def first_elem_slice_penultimate second_from_last_def)

theorem shortUrl_second_from_last_segment_witness:
  "0 < length [example_row] \<and>
   ShortUrl (processedData [example_row] ! 0) =
     second_from_last (split (CHR ''/'') (Reel ([example_row] ! 0))) \<and>
   CHR ''/'' \<in> set (Reel ([example_row] ! 0)) \<and>
   Reel ([example_row] ! 0) = ''https://x/y/aaa111'' \<and>
   ShortUrl (processedData [example_row] ! 0) = Some ''y''"
  using shortUrl_second_from_last_segment [of 0 "[example_row]"]
  by (simp add: example_row_def second_from_last_def)

text \<open>
  The claim as first stated, with the second-from-last \<^emph>\<open>non-empty\<close> segment, fails on
  a URL that ends in a slash: the code keeps the empty last segment and returns the reel
  identifier, where the non-empty segments would give \<^verbatim>\<open>reel\<close>.
\<close>

theorem shortUrl_counts_empty_segments:
  "ShortUrl (processedData [trailing_slash_row] ! 0) = Some ''Cabc123'' \<and>
   shortUrl_spec (Reel trailing_slash_row) = Some ''reel''"
  by (simp add: processedData_def trailing_slash_row_def shortUrl_def shortUrl_spec_def
      second_from_last_def slice_def relative_index_def first_elem_def)

subsection \<open>Pagination\<close>

text \<open>
  Claim C5. For a list of \<open>N\<close> records and a 1-based page number \<open>p\<close>, the page is the
  slice \<open>[(p-1)*10, p*10)\<close> of the list; the number of non-empty pages is \<open>ceil(N/10)\<close>,
  and the last of them holds \<open>N mod 10\<close> records, or 10 when 10 divides \<open>N\<close>.
\<close>

theorem paginated_page_is_slice:
  assumes "1 \<le> p"
  shows "paginatedData xs p = index_range xs (nat ((p - 1) * 10)) (nat (p * 10)) \<and>
         card {q. 1 \<le> q \<and> paginatedData xs q \<noteq> []} = nat \<lceil>real (length xs) / 10\<rceil> \<and>
         (0 < length xs \<longrightarrow>
            length (paginatedData xs \<lceil>real (length xs) / 10\<rceil>) =
              (if length xs mod 10 = 0 then 10 else length xs mod 10))"
proof -
  define k where "k = nat (p - 1)"
  have p: "p = int k + 1" using assms by (simp add: k_def)
  have "(p - 1) * 10 = int (10 * k)" "p * 10 = int (10 * k + 10)"
    by (simp_all add: p)
  then have e: "nat ((p - 1) * 10) = 10 * nat (p - 1)" "nat (p * 10) = 10 * nat (p - 1) + 10"
    unfolding k_def [symmetric] by (simp_all only: nat_int)
  have 1: "paginatedData xs p = index_range xs (nat ((p - 1) * 10)) (nat (p * 10))"
    by (simp only: e paginatedData_take_drop [OF assms] take_drop_index_range)
  have "(1 \<le> q \<and> paginatedData xs q \<noteq> []) = (q \<in> {1..\<lceil>real (length xs) / 10\<rceil>})" for q
    using paginatedData_nonempty_iff [of q xs] by (cases "1 \<le> q") simp_all
  then have "{q. 1 \<le> q \<and> paginatedData xs q \<noteq> []} = {1..\<lceil>real (length xs) / 10\<rceil>}"
    by (simp only: Collect_mem_eq)
  then have 2: "card {q. 1 \<le> q \<and> paginatedData xs q \<noteq> []} = nat \<lceil>real (length xs) / 10\<rceil>"
    by simp
  have 3: "0 < length xs \<longrightarrow>
            length (paginatedData xs \<lceil>real (length xs) / 10\<rceil>) =
              (if length xs mod 10 = 0 then 10 else length xs mod 10)"
    by (rule impI) (rule length_last_page)
  from 1 2 3 show ?thesis by (intro conjI)
qed

theorem paginated_page_is_slice_witness:
  "(1::int) \<le> 2 \<and>
   paginatedData ''abcdefghijklm'' 2 = index_range ''abcdefghijklm'' 10 20 \<and>
   paginatedData ''abcdefghijklm'' 2 = ''klm'' \<and>
   card {q. 1 \<le> q \<and> paginatedData ''abcdefghijklm'' q \<noteq> []} = 2 \<and>
   0 < length ''abcdefghijklm'' \<and>
   length (paginatedData ''abcdefghijklm'' \<lceil>real (length ''abcdefghijklm'') / 10\<rceil>) = 3"
proof -
  have c: "\<lceil>real (length ''abcdefghijklm'') / 10\<rceil> = 2"
    by (simp add: ceiling_div_10)
  have i: "index_range ''abcdefghijklm'' 10 20 = ''klm''"
    by (simp add: index_range_def upt_rec)
  show ?thesis
    using paginated_page_is_slice [of 2 "''abcdefghijklm''"] by (simp add: c i)
qed

text \<open>
  Claim C7. For a page number \<open>p\<close> with \<open>(p-1)*10\<close> at or beyond the number of filtered
  records, the paginator yields the empty list; it has no error outcome.
\<close>

theorem paginated_out_of_range_empty:
  "int (length filtered) \<le> (p - 1) * rowsPerPage \<Longrightarrow> paginatedData filtered p = []"
  using paginatedData_empty_beyond [of filtered p] by (simp add: rowsPerPage_def)

theorem paginated_out_of_range_empty_witness:
  "int (length ''abc'') \<le> (2 - 1) * rowsPerPage \<and> paginatedData ''abc'' 2 = []"
  using paginated_out_of_range_empty [of "''abc''" 2] by (simp add: rowsPerPage_def)

text \<open>
  Claim C10. The pages 1 to \<open>ceil(N/10)\<close> of a list of \<open>N\<close> records, one after the
  other, are exactly that list: every record of the filtered and sorted list is on one
  page, none twice and none missing. It holds of every list, so of every filter, metric
  and sort order.
\<close>

theorem pages_concat_is_filtered_list:
  "concat (map (paginatedData xs) [1..\<lceil>real (length xs) / 10\<rceil>]) = xs"
proof -
  have "10 * ((length xs + 9) div 10) \<ge> length xs" by arith
  then show ?thesis unfolding ceiling_div_10 concat_pages_take by simp
qed

subsection \<open>Numbers, comparisons and the sort\<close>

lemma jlt_irrefl [simp]: "\<not> jlt a a"
  by (cases a) auto

lemma jlt_trans: "jlt a b \<Longrightarrow> jlt b c \<Longrightarrow> jlt a c"
  by (cases a; cases b; cases c) auto

lemma jlt_asym: "jlt a b \<Longrightarrow> \<not> jlt b a"
  by (cases a; cases b) auto

lemma jlt_total: "a \<noteq> NaN \<Longrightarrow> b \<noteq> NaN \<Longrightarrow> jlt a b \<or> a = b \<or> jlt b a"
  by (cases a; cases b) auto

lemma jge_iff: "a \<noteq> NaN \<Longrightarrow> b \<noteq> NaN \<Longrightarrow> jge a b \<longleftrightarrow> \<not> jlt a b"
  by (cases a; cases b) auto

lemma cmp_pos_jsub: "a \<noteq> NaN \<Longrightarrow> b \<noteq> NaN \<Longrightarrow> cmp_pos (jsub b a) \<longleftrightarrow> jlt a b"
  by (cases a; cases b) (auto simp: cmp_pos_def jsub_def)

lemma cmp_neg_jsub: "a \<noteq> NaN \<Longrightarrow> b \<noteq> NaN \<Longrightarrow> cmp_neg (jsub b a) \<longleftrightarrow> jlt b a"
  by (cases a; cases b) (auto simp: cmp_neg_def jsub_def)

lemma cmp_zero_jsub: "a \<noteq> NaN \<Longrightarrow> b \<noteq> NaN \<Longrightarrow> cmp_zero (jsub b a) \<longleftrightarrow> a = b"
  by (cases a; cases b) (auto simp: cmp_zero_def cmp_neg_def cmp_pos_def jsub_def)

lemma cmp_pos_jsub_same [simp]: "\<not> cmp_pos (jsub a a)"
  by (cases a) (auto simp: cmp_pos_def jsub_def)

lemma cmp_zero_jsub_same [simp]: "cmp_zero (jsub a a)"
  by (cases a) (auto simp: cmp_zero_def cmp_neg_def cmp_pos_def jsub_def)

lemma consistent_jsub:
  assumes "\<forall>x\<in>S. k x \<noteq> NaN"
  shows "consistent_comparator (\<lambda>a b. jsub (k b) (k a)) S"
    and "consistent_comparator (\<lambda>a b. jsub (k a) (k b)) S"
  unfolding consistent_comparator_def
  using assms by (auto simp: cmp_pos_jsub cmp_neg_jsub cmp_zero_jsub intro: jlt_trans)

lemma consistent_singleton:
  "cmp_zero (cmp x x) \<Longrightarrow> consistent_comparator cmp {x}"
  by (simp add: consistent_comparator_def)

lemma not_consistent:
  "a \<in> S \<Longrightarrow> b \<in> S \<Longrightarrow> c \<in> S \<Longrightarrow> cmp_zero (cmp a b) \<Longrightarrow> cmp_zero (cmp b c) \<Longrightarrow>
   \<not> cmp_zero (cmp a c) \<Longrightarrow> \<not> consistent_comparator cmp S"
  unfolding consistent_comparator_def by blast

lemma set_sort_insert [simp]: "set (sort_insert cmp x ys) = insert x (set ys)"
  by (induction ys) auto

lemma set_stable_sort [simp]: "set (stable_sort cmp xs) = set xs"
  by (induction xs) auto

lemma length_sort_insert [simp]: "length (sort_insert cmp x ys) = Suc (length ys)"
  by (induction ys) auto

lemma length_stable_sort [simp]: "length (stable_sort cmp xs) = length xs"
  by (induction xs) auto

text \<open>The insertion keeps a list sorted, for keys none of which is NaN.\<close>

lemma sorted_sort_insert_desc:
  assumes "sorted_wrt (\<lambda>a b. jge (k a) (k b)) ys" and "k x \<noteq> NaN" and "\<forall>y\<in>set ys. k y \<noteq> NaN"
  shows "sorted_wrt (\<lambda>a b. jge (k a) (k b)) (sort_insert (\<lambda>a b. jsub (k b) (k a)) x ys)"
  using assms
proof (induction ys)
  case Nil
  then show ?case by simp
next
  case (Cons y ys)
  show ?case
  proof (cases "jlt (k x) (k y)")
    case True
    then have "jge (k y) (k x)"
      using Cons.prems by (simp add: jge_iff jlt_asym)
    then show ?thesis
      using True Cons by (auto simp: cmp_pos_jsub)
  next
    case False
    then have xy: "jge (k x) (k y)" using Cons.prems by (simp add: jge_iff)
    have "jge (k x) (k z)" if "z \<in> set ys" for z
    proof -
      have "jge (k y) (k z)" using Cons.prems(1) that by simp
      then have "\<not> jlt (k y) (k z)" using Cons.prems that by (simp add: jge_iff)
      then have "\<not> jlt (k x) (k z)"
        using False jlt_total [of "k y" "k x"] Cons.prems(2,3) jlt_trans [of "k x" "k z" "k y"]
          jlt_trans [of "k y" "k x" "k z"]
        by auto
      then show ?thesis using Cons.prems that by (simp add: jge_iff)
    qed
    then show ?thesis
      using False xy Cons.prems by (auto simp: cmp_pos_jsub)
  qed
qed

lemma sorted_stable_sort_desc:
  "\<forall>x\<in>set xs. k x \<noteq> NaN \<Longrightarrow>
   sorted_wrt (\<lambda>a b. jge (k a) (k b)) (stable_sort (\<lambda>a b. jsub (k b) (k a)) xs)"
  by (induction xs) (simp_all add: sorted_sort_insert_desc)



lemma sort_js_no_NaN:
  assumes "no_NaN m recs"
  shows "sort_js engine (compare_desc m) recs = stable_sort (compare_desc m) recs"
    and "sort_js engine (compare_asc m) recs = stable_sort (compare_asc m) recs"
    and "sort_js engine (compare_table ord m) recs = stable_sort (compare_table ord m) recs"
proof -
  have n: "\<forall>x\<in>set recs. metric_of m x \<noteq> NaN" using assms by (simp add: no_NaN_def)
  have d: "compare_desc m = (\<lambda>a b. jsub (metric_of m b) (metric_of m a))"
    and a: "compare_asc m = (\<lambda>a b. jsub (metric_of m a) (metric_of m b))"
    by (simp_all add: compare_desc_def compare_asc_def fun_eq_iff)
  have t: "compare_table ord m = (if ord = asc then compare_asc m else compare_desc m)"
    by (simp add: compare_table_def fun_eq_iff)
  show "sort_js engine (compare_desc m) recs = stable_sort (compare_desc m) recs"
    unfolding sort_js_def d using consistent_jsub(1) [OF n] by simp
  show "sort_js engine (compare_asc m) recs = stable_sort (compare_asc m) recs"
    unfolding sort_js_def a using consistent_jsub(2) [OF n] by simp
  show "sort_js engine (compare_table ord m) recs = stable_sort (compare_table ord m) recs"
    unfolding sort_js_def t a d
    using consistent_jsub(1) [OF n] consistent_jsub(2) [OF n] by simp
qed

lemma sorted_desc_stable_sort:
  "no_NaN m recs \<Longrightarrow> sorted_desc m (stable_sort (compare_desc m) recs)"
proof -
  assume "no_NaN m recs"
  then have n: "\<forall>x\<in>set recs. metric_of m x \<noteq> NaN" by (simp add: no_NaN_def)
  have d: "compare_desc m = (\<lambda>a b. jsub (metric_of m b) (metric_of m a))"
    by (simp add: compare_desc_def fun_eq_iff)
  show ?thesis unfolding sorted_desc_def d using n by (rule sorted_stable_sort_desc)
qed






lemma sort_js_singleton: "sort_js engine (compare_table ord m) [x] = [x]"
proof -
  have "cmp_zero (compare_table ord m x x)"
    by (simp add: compare_table_def compare_asc_def compare_desc_def)
  then show ?thesis by (simp add: sort_js_def consistent_singleton)
qed

lemma set_sort_js_no_NaN:
  fixes recs :: "reel list"
  shows "no_NaN m recs \<Longrightarrow> set (sort_js engine (compare_desc m) recs) = set recs"
  using sort_js_no_NaN(1) [of m recs engine] by simp



lemma binary_search_stop:
  "\<not> left < right \<Longrightarrow> binary_search cmp pivot xs left right = left"
  by (simp add: binary_search.simps)

lemma binary_search_left:
  "left < right \<Longrightarrow> cmp_neg (cmp pivot (xs ! (left + (right - left) div 2))) \<Longrightarrow>
   binary_search cmp pivot xs left right =
     binary_search cmp pivot xs left (left + (right - left) div 2)"
  by (subst binary_search.simps) (simp add: Let_def)

lemma binary_search_right:
  "left < right \<Longrightarrow> \<not> cmp_neg (cmp pivot (xs ! (left + (right - left) div 2))) \<Longrightarrow>
   binary_search cmp pivot xs left right =
     binary_search cmp pivot xs (left + (right - left) div 2 + 1) right"
  by (subst binary_search.simps) (simp add: Let_def)

lemmas binary_search_eval = binary_search_stop binary_search_left binary_search_right

text \<open>
  Where a rank represents the comparison, as it does for the metric comparisons without
  a NaN key, the insertion from the right is the library's stable \<open>sort_key\<close>, and so
  is binary insertion: the engine then agrees with the order the model fixes.
\<close>

lemma jlt_desc_rank:
  "a \<noteq> NaN \<Longrightarrow> b \<noteq> NaN \<Longrightarrow> jlt a b \<longleftrightarrow> desc_rank b < desc_rank a"
  by (cases a; cases b) (auto simp: desc_rank_def less_prod_def)

lemma jlt_asc_rank:
  "a \<noteq> NaN \<Longrightarrow> b \<noteq> NaN \<Longrightarrow> jlt a b \<longleftrightarrow> asc_rank a < asc_rank b"
  by (cases a; cases b) (auto simp: asc_rank_def less_prod_def)

lemma represents_subset: "represents f cmp S \<Longrightarrow> T \<subseteq> S \<Longrightarrow> represents f cmp T"
  unfolding represents_def by blast

lemma represents_desc:
  "\<forall>x\<in>S. k x \<noteq> NaN \<Longrightarrow> represents (\<lambda>x. desc_rank (k x)) (\<lambda>a b. jsub (k b) (k a)) S"
  unfolding represents_def by (simp add: cmp_pos_jsub cmp_neg_jsub jlt_desc_rank)

lemma represents_asc:
  "\<forall>x\<in>S. k x \<noteq> NaN \<Longrightarrow> represents (\<lambda>x. asc_rank (k x)) (\<lambda>a b. jsub (k a) (k b)) S"
  unfolding represents_def by (simp add: cmp_pos_jsub cmp_neg_jsub jlt_asc_rank)

lemma sort_insert_insort_key:
  fixes f :: "'a \<Rightarrow> 'b::linorder"
  assumes "represents f cmp (insert x (set ys))"
  shows "sort_insert cmp x ys = insort_key f x ys"
  using assms
proof (induction ys)
  case Nil
  show ?case by simp
next
  case (Cons y ys)
  have "represents f cmp (insert x (set ys))"
    using Cons.prems by (rule represents_subset) auto
  then have "sort_insert cmp x ys = insort_key f x ys" by (rule Cons.IH)
  moreover have "cmp_pos (cmp x y) \<longleftrightarrow> f y < f x"
    using Cons.prems by (simp add: represents_def)
  ultimately show ?case by (auto simp: not_less)
qed

lemma stable_sort_sort_key:
  fixes f :: "'a \<Rightarrow> 'b::linorder"
  shows "represents f cmp (set xs) \<Longrightarrow> stable_sort cmp xs = sort_key f xs"
proof (induction xs)
  case Nil
  show ?case by simp
next
  case (Cons x xs)
  have "represents f cmp (set xs)" using Cons.prems by (rule represents_subset) auto
  then have "stable_sort cmp xs = sort_key f xs" by (rule Cons.IH)
  moreover have "represents f cmp (insert x (set (sort_key f xs)))"
    using Cons.prems by simp
  ultimately show ?case by (simp add: sort_insert_insort_key)
qed

text \<open>The binary search finds the end of the elements that do not rank above the pivot.\<close>

lemma binary_search_bounds:
  fixes f :: "'a \<Rightarrow> 'b::linorder"
  assumes "sorted (map f xs)" and "\<forall>e\<in>set xs. cmp_neg (cmp p e) \<longleftrightarrow> f p < f e"
    and "l \<le> r" and "r \<le> length xs"
    and "\<forall>i<l. f (xs ! i) \<le> f p"
    and "\<forall>i. r \<le> i \<and> i < length xs \<longrightarrow> f p < f (xs ! i)"
  shows "binary_search cmp p xs l r \<le> length xs \<and>
         (\<forall>i<binary_search cmp p xs l r. f (xs ! i) \<le> f p) \<and>
         (\<forall>i. binary_search cmp p xs l r \<le> i \<and> i < length xs \<longrightarrow> f p < f (xs ! i))"
  using assms
proof (induction cmp p xs l r rule: binary_search.induct)
  case (1 cmp pivot xs left right)
  show ?case
  proof (cases "left < right")
    case False
    then have "binary_search cmp pivot xs left right = left" by (simp add: binary_search.simps)
    moreover have "left = right" using False "1.prems"(3) by simp
    ultimately show ?thesis using "1.prems" by simp
  next
    case True
    define mid where "mid = left + (right - left) div 2"
    have m: "left \<le> mid" "mid < right" "mid < length xs"
      using True "1.prems"(4) by (auto simp: mid_def)
    have neg: "cmp_neg (cmp pivot (xs ! mid)) \<longleftrightarrow> f pivot < f (xs ! mid)"
      using "1.prems"(2) m(3) by simp
    have s: "f (xs ! i) \<le> f (xs ! j)" if "i \<le> j" "j < length xs" for i j
      using sorted_nth_mono [OF "1.prems"(1), of i j] that by simp
    show ?thesis
    proof (cases "cmp_neg (cmp pivot (xs ! mid))")
      case c: True
      have e: "binary_search cmp pivot xs left right = binary_search cmp pivot xs left mid"
        using True c by (subst binary_search.simps) (simp add: mid_def Let_def)
      have "\<forall>i. mid \<le> i \<and> i < length xs \<longrightarrow> f pivot < f (xs ! i)"
      proof (intro allI impI)
        fix i assume i: "mid \<le> i \<and> i < length xs"
        then have "f (xs ! mid) \<le> f (xs ! i)" using s [of mid i] by simp
        then show "f pivot < f (xs ! i)" using c neg by simp
      qed
      then show ?thesis
        unfolding e
        using "1.IH"(1) [OF True mid_def c "1.prems"(1,2) m(1) _ "1.prems"(5)] m(3)
        by simp
    next
      case c: False
      have e: "binary_search cmp pivot xs left right = binary_search cmp pivot xs (mid + 1) right"
        using True c by (subst binary_search.simps) (simp add: mid_def Let_def)
      have "\<forall>i<mid + 1. f (xs ! i) \<le> f pivot"
      proof (intro allI impI)
        fix i assume i: "i < mid + 1"
        then have "f (xs ! i) \<le> f (xs ! mid)" using s [of i mid] m(3) by simp
        then show "f (xs ! i) \<le> f pivot" using c neg by simp
      qed
      then show ?thesis
        unfolding e
        using "1.IH"(2) [OF True mid_def c "1.prems"(1,2) _ "1.prems"(4) _ "1.prems"(6)] m(2)
        by simp
    qed
  qed
qed

lemma binary_insert_props:
  fixes f :: "'a \<Rightarrow> 'b::linorder"
  assumes "sorted (map f pre)" and "\<forall>e\<in>set pre. cmp_neg (cmp p e) \<longleftrightarrow> f p < f e"
  shows "sorted (map f (binary_insert cmp pre p))"
    and "mset (binary_insert cmp pre p) = mset (pre @ [p])"
    and "filter (\<lambda>x. v = f x) (binary_insert cmp pre p) = filter (\<lambda>x. v = f x) (pre @ [p])"
proof -
  define b where "b = binary_search cmp p pre 0 (length pre)"
  have "b \<le> length pre \<and> (\<forall>i<b. f (pre ! i) \<le> f p) \<and>
        (\<forall>i. b \<le> i \<and> i < length pre \<longrightarrow> f p < f (pre ! i))"
    unfolding b_def
    by (rule binary_search_bounds [where f = f and cmp = cmp and p = p, OF assms]) auto
  then have bs: "b \<le> length pre" "\<forall>i<b. f (pre ! i) \<le> f p"
    "\<forall>i. b \<le> i \<and> i < length pre \<longrightarrow> f p < f (pre ! i)"
    by simp_all
  have ys: "binary_insert cmp pre p = take b pre @ p # drop b pre"
    by (simp add: binary_insert_def b_def Let_def)
  have t: "\<forall>x\<in>set (take b pre). f x \<le> f p"
    using bs(1,2) by (auto simp: in_set_conv_nth)
  have d: "\<forall>x\<in>set (drop b pre). f p < f x"
  proof
    fix x assume "x \<in> set (drop b pre)"
    then obtain i where "i < length pre - b" "x = pre ! (b + i)"
      by (auto simp: in_set_conv_nth)
    then show "f p < f x" using bs(3) by simp
  qed
  have st: "sorted (map f (take b pre))" "sorted (map f (drop b pre))"
    using sorted_wrt_take [of "(\<le>)" "map f pre" b] sorted_wrt_drop [of "(\<le>)" "map f pre" b]
      assms(1)
    by (simp_all add: take_map drop_map)
  show "sorted (map f (binary_insert cmp pre p))"
    unfolding ys using t d st by (fastforce simp: sorted_append)
  have "mset (take b pre) + mset (drop b pre) = mset pre"
    by (metis append_take_drop_id mset_append)
  then show "mset (binary_insert cmp pre p) = mset (pre @ [p])"
    unfolding ys by simp
  have "filter (\<lambda>x. v = f x) (take b pre) @ filter (\<lambda>x. v = f x) (drop b pre) =
        filter (\<lambda>x. v = f x) pre"
    by (metis append_take_drop_id filter_append)
  moreover have "filter (\<lambda>x. v = f x) (drop b pre) = []" if "v = f p"
    using d that by (auto simp: filter_empty_conv)
  ultimately show "filter (\<lambda>x. v = f x) (binary_insert cmp pre p) =
      filter (\<lambda>x. v = f x) (pre @ [p])"
    unfolding ys by (cases "v = f p") auto
qed

lemma binary_insertion_sort_snoc:
  "binary_insertion_sort cmp (xs @ [p]) = binary_insert cmp (binary_insertion_sort cmp xs) p"
  by (simp add: binary_insertion_sort_def)

lemma binary_insertion_sort_props:
  fixes f :: "'a \<Rightarrow> 'b::linorder"
  assumes "represents f cmp (set xs)"
  shows "sorted (map f (binary_insertion_sort cmp xs)) \<and>
         mset (binary_insertion_sort cmp xs) = mset xs \<and>
         (\<forall>v. filter (\<lambda>x. v = f x) (binary_insertion_sort cmp xs) = filter (\<lambda>x. v = f x) xs)"
  using assms
proof (induction xs rule: rev_induct)
  case Nil
  show ?case by (simp add: binary_insertion_sort_def)
next
  case (snoc p xs)
  let ?pre = "binary_insertion_sort cmp xs"
  have "represents f cmp (set xs)" using snoc.prems by (rule represents_subset) auto
  then have ih: "sorted (map f ?pre)" "mset ?pre = mset xs"
    "\<And>v. filter (\<lambda>x. v = f x) ?pre = filter (\<lambda>x. v = f x) xs"
    using snoc.IH by simp_all
  have "set ?pre = set xs" using ih(2) by (rule mset_eq_setD)
  then have n: "\<forall>e\<in>set ?pre. cmp_neg (cmp p e) \<longleftrightarrow> f p < f e"
    using snoc.prems by (simp add: represents_def)
  note bp = binary_insert_props [where f = f and cmp = cmp and p = p and pre = ?pre, OF ih(1) n]
  show ?case
    unfolding binary_insertion_sort_snoc using bp ih(2,3) by simp
qed

lemma binary_insertion_sort_sort_key:
  fixes f :: "'a \<Rightarrow> 'b::linorder"
  assumes "represents f cmp (set xs)"
  shows "binary_insertion_sort cmp xs = sort_key f xs"
  using binary_insertion_sort_props [OF assms]
  by (intro properties_for_sort_key [symmetric]) simp_all

lemma binary_insertion_sort_stable_sort:
  fixes f :: "'a \<Rightarrow> 'b::linorder"
  assumes "represents f cmp (set xs)"
  shows "binary_insertion_sort cmp xs = stable_sort cmp xs"
  by (simp add: binary_insertion_sort_sort_key [OF assms] stable_sort_sort_key [OF assms])

lemma engine_agrees_no_NaN:
  assumes "no_NaN m recs"
  shows "binary_insertion_sort (compare_desc m) recs = stable_sort (compare_desc m) recs"
    and "binary_insertion_sort (compare_table ord m) recs = stable_sort (compare_table ord m) recs"
proof -
  have n: "\<forall>x\<in>set recs. metric_of m x \<noteq> NaN" using assms by (simp add: no_NaN_def)
  have d: "compare_desc m = (\<lambda>a b. jsub (metric_of m b) (metric_of m a))"
    and a: "compare_asc m = (\<lambda>a b. jsub (metric_of m a) (metric_of m b))"
    by (simp_all add: compare_desc_def compare_asc_def fun_eq_iff)
  have t: "compare_table ord m = (if ord = asc then compare_asc m else compare_desc m)"
    by (simp add: compare_table_def fun_eq_iff)
  show 1: "binary_insertion_sort (compare_desc m) recs = stable_sort (compare_desc m) recs"
    unfolding d using represents_desc [OF n] by (rule binary_insertion_sort_stable_sort)
  have 2: "binary_insertion_sort (compare_asc m) recs = stable_sort (compare_asc m) recs"
    unfolding a using represents_asc [OF n] by (rule binary_insertion_sort_stable_sort)
  show "binary_insertion_sort (compare_table ord m) recs = stable_sort (compare_table ord m) recs"
    unfolding t using 1 2 by simp
qed

subsection \<open>The filter predicate\<close>




lemma ci_substring_Nil [simp]: "ci_substring [] s"
  unfolding ci_substring_def by (rule exI [of _ "[]"], rule exI [of _ "[]"]) simp









subsection \<open>The top-10 list and the reachable states\<close>

lemma slice_0_10: "slice xs 0 10 = take 10 xs"
  by (simp add: slice_def relative_index_def Let_def min_def)

lemma display_entry_fields:
  assumes "display_entry r = Inr t"
  shows "metric_of m t = metric_of m r" and "reel_id t = reel_id r"
  using assms
  by (cases m; auto simp: display_entry_def reel.defs split: option.splits)+

lemma map_result_Inr:
  "map_result f xs = Inr ys \<Longrightarrow> list_all2 (\<lambda>x y. f x = Inr y) xs ys"
  by (induction xs arbitrary: ys) (auto split: sum.splits)

lemma map_result_total:
  "\<forall>x\<in>set xs. \<exists>y. f x = Inr y \<Longrightarrow> \<exists>ys. map_result f xs = Inr ys"
  by (induction xs) (auto split: sum.splits)

lemma display_entry_total: "ShortUrl r \<noteq> None \<Longrightarrow> \<exists>t. display_entry r = Inr t"
  by (auto simp: display_entry_def split: option.splits)

lemma sorted_desc_transfer:
  assumes "list_all2 (\<lambda>r t. display_entry r = Inr t) xs ts" and "sorted_desc m xs"
  shows "sorted_desc m ts"
proof -
  have l: "length xs = length ts" using assms(1) by (rule list_all2_lengthD)
  have k: "metric_of m (ts ! i) = metric_of m (xs ! i)" if "i < length ts" for i
    using assms(1) that l by (auto dest: list_all2_nthD2 display_entry_fields(1))
  show ?thesis
    using assms(2) l unfolding sorted_desc_def sorted_wrt_iff_nth_less
    by (auto simp: k)
qed



lemma sorted_desc_take: "sorted_desc m xs \<Longrightarrow> sorted_desc m (take n xs)"
  unfolding sorted_desc_def by (rule sorted_wrt_take)

lemma newTop10_Inr:
  "newTop10 engine recs m = Inr t \<Longrightarrow>
     list_all2 (\<lambda>r t. display_entry r = Inr t) (take 10 (sort_js engine (compare_desc m) recs)) t"
  by (auto simp: newTop10_def slice_0_10 dest: map_result_Inr)

lemma newTop10_sorted_length:
  assumes "no_NaN m recs" and "newTop10 engine recs m = Inr t"
  shows "sorted_desc m t" and "length t = min 10 (length recs)"
proof -
  note a = newTop10_Inr [OF assms(2), unfolded sort_js_no_NaN(1) [OF assms(1)]]
  have "sorted_desc m (take 10 (stable_sort (compare_desc m) recs))"
    using assms(1) by (intro sorted_desc_take sorted_desc_stable_sort)
  then show "sorted_desc m t" using a by (rule sorted_desc_transfer [rotated])
  show "length t = min 10 (length recs)"
    using list_all2_lengthD [OF a] by simp
qed

lemma newTop10_total:
  assumes "no_NaN m recs" and "\<forall>r\<in>set recs. ShortUrl r \<noteq> None"
  shows "\<exists>t. newTop10 engine recs m = Inr t"
proof -
  have "\<forall>x\<in>set (take 10 (sort_js engine (compare_desc m) recs)). \<exists>y. display_entry x = Inr y"
    using assms set_sort_js_no_NaN [OF assms(1), of engine]
    by (auto dest!: in_set_takeD intro: display_entry_total)
  then show ?thesis
    by (simp add: newTop10_def slice_0_10 map_result_total)
qed

lemma fetchData_fields:
  "loading (fetchData out s) = False"
  "top10Data (fetchData out s) = top10Data s"
  "data (fetchData Failed s) = data s"
  by (cases out; simp)+

lemma reachable_invariant:
  "reachable engine s \<Longrightarrow> (loading s \<longrightarrow> data s = []) \<and> (data s = [] \<longrightarrow> top10Data s = [])"
proof (induction rule: reachable.induct)
  case reachable_initial
  show ?case by (simp add: initial_state_def)
next
  case (reachable_step s e s')
  then show ?case
    by (cases e; cases "loading s") (auto simp: fetchData_fields split: sum.splits)
next
  case (reachable_effect s s')
  then show ?case
    by (auto simp: top10_effect_def split: if_splits sum.splits)
qed

subsection \<open>The example data\<close>

lemma lower_examples:
  "toLowerCase ''AAA'' = ''aaa''"
  "toLowerCase ''y'' = ''y''"
  "toLowerCase ''z'' = ''z''"
  "toLowerCase ''https://x/y/aaa111'' = ''https://x/y/aaa111''"
  "toLowerCase ''https://y/z/bbb222'' = ''https://y/z/bbb222''"
  by code_simp+

lemma shortUrl_examples:
  "shortUrl ''https://x/y/aaa111'' = Some ''y''"
  "shortUrl ''https://y/z/bbb222'' = Some ''z''"
  by (simp_all add: shortUrl_def slice_def relative_index_def first_elem_def)

lemma example_data_eval:
  "example_data = [process_row example_row 0, process_row other_host_row 1]"
  by (simp add: example_data_def processedData_def)

lemma example_fields:
  "Reel example_row = ''https://x/y/aaa111''"
  "Reel other_host_row = ''https://y/z/bbb222''"
  "Views example_row = 1000" "Views other_host_row = 500"
  "Likes example_row = 100" "Likes other_host_row = 50"
  "Comments example_row = 10" "Comments other_host_row = 5"
  by (simp_all add: example_row_def other_host_row_def)

lemma example_ShortUrl_defined: "\<forall>x\<in>set example_data. ShortUrl x \<noteq> None"
  by (simp add: example_data_eval example_fields shortUrl_examples)

lemma example_no_NaN: "no_NaN m example_data"
  by (cases m)
     (simp_all add: no_NaN_def example_data_eval process_row_fields example_fields)

lemma example_filtered_AAA:
  "filteredData engine example_data ''AAA'' desc M_Views = Inr [example_data ! 0]"
  by (simp add: example_data_eval filteredData_def filter_pred_def example_fields
      shortUrl_examples lower_examples sort_js_singleton)


lemma loaded_state_fields:
  "data loaded_state = example_data" "rankingMetric loaded_state = M_EngagementScore"
  by (simp_all add: loaded_state_def initial_state_def example_data_def)

lemma reachable_loaded_state: "reachable engine loaded_state"
proof -
  have "step engine (FetchSettled (Parsed [example_row, other_host_row])) initial_state =
        Inr loaded_state"
    by (simp add: loaded_state_def initial_state_def)
  then show ?thesis using reachable_initial by (rule reachable_step [rotated])
qed

lemma zero_views_keys:
  "metric_of M_EngagementScore (processedData zero_views_rows ! 0) = Fin 1"
  "metric_of M_EngagementScore (processedData zero_views_rows ! 1) = NaN"
  "metric_of M_EngagementScore (processedData zero_views_rows ! 2) = Fin 2"
  by (simp_all add: processedData_nth process_row_fields zero_views_rows_def)

lemma zero_views_inconsistent:
  "\<not> consistent_comparator (compare_desc M_EngagementScore) (set (processedData zero_views_rows))"
proof (rule not_consistent)
  show "processedData zero_views_rows ! 0 \<in> set (processedData zero_views_rows)"
    "processedData zero_views_rows ! 1 \<in> set (processedData zero_views_rows)"
    "processedData zero_views_rows ! 2 \<in> set (processedData zero_views_rows)"
    by (simp_all add: zero_views_rows_def)
qed (simp_all only: compare_desc_def zero_views_keys,
     simp_all add: jsub_def cmp_zero_def cmp_neg_def cmp_pos_def)

lemma zero_views_sorted:
  "sort_js binary_insertion_sort (compare_desc M_EngagementScore) (processedData zero_views_rows) =
     processedData zero_views_rows"
proof -
  have "binary_insertion_sort (compare_desc M_EngagementScore) (processedData zero_views_rows) =
        processedData zero_views_rows"
    by (simp add: processedData_def zero_views_rows_def binary_insertion_sort_def
        binary_insert_def binary_search_eval compare_desc_def process_row_fields jsub_def
        cmp_neg_def)
  then show ?thesis using zero_views_inconsistent by (simp add: sort_js_def)
qed

lemma zero_views_top10:
  "case newTop10 binary_insertion_sort (processedData zero_views_rows) M_EngagementScore of
      Inl e \<Rightarrow> False
    | Inr t \<Rightarrow>
        map reel_id t = [1, 2, 3] \<and>
        map (metric_of M_EngagementScore) t = [Fin 1, NaN, Fin 2] \<and>
        \<not> sorted_desc M_EngagementScore t"
  unfolding newTop10_def zero_views_sorted slice_0_10
  by (simp add: processedData_def zero_views_rows_def display_entry_def shortUrl_def
      slice_def relative_index_def first_elem_def process_row_fields reel.defs
      sorted_desc_def)

lemma zero_views_state_fields:
  "data zero_views_state = processedData zero_views_rows"
  "rankingMetric zero_views_state = M_EngagementScore"
  by (simp_all add: zero_views_state_def initial_state_def)

lemma reachable_zero_views_state: "reachable engine zero_views_state"
proof -
  have "step engine (FetchSettled (Parsed zero_views_rows)) initial_state = Inr zero_views_state"
    by (simp add: zero_views_state_def initial_state_def)
  then show ?thesis using reachable_initial by (rule reachable_step [rotated])
qed




subsection \<open>The filter\<close>






subsection \<open>The ranker\<close>

text \<open>
  Claim C2, as amended. For every record list no record of which has NaN as the
  selected metric, and every metric, the top-10 list the ranker produces is sorted
  descending by that metric and has length \<open>min(10, number of records)\<close>; the ranker
  produces one whenever every \<^verbatim>\<open>ShortUrl\<close> is defined. The same holds of the list
  the effect stores, in every state the component reaches, also when there are no
  records and the effect leaves the stored list as it is.
\<close>

theorem top10_sorted_desc_and_length:
  assumes "no_NaN m recs"
  shows "(\<forall>t. newTop10 engine recs m = Inr t \<longrightarrow>
            sorted_desc m t \<and> length t = min 10 (length recs)) \<and>
         ((\<forall>r\<in>set recs. ShortUrl r \<noteq> None) \<longrightarrow> (\<exists>t. newTop10 engine recs m = Inr t)) \<and>
         (\<forall>s s'. reachable engine s \<and> data s = recs \<and> rankingMetric s = m \<and>
                 top10_effect engine s = Inr s' \<longrightarrow>
                 sorted_desc m (top10Data s') \<and>
                 length (top10Data s') = min 10 (length recs))"
proof (intro conjI allI impI)
  show "sorted_desc m t" "length t = min 10 (length recs)"
    if "newTop10 engine recs m = Inr t" for t
    using newTop10_sorted_length [OF assms that] by simp_all
  show "\<exists>t. newTop10 engine recs m = Inr t" if "\<forall>r\<in>set recs. ShortUrl r \<noteq> None"
    using newTop10_total [OF assms that] .
  fix s s'
  assume a: "reachable engine s \<and> data s = recs \<and> rankingMetric s = m \<and>
             top10_effect engine s = Inr s'"
  have "sorted_desc m (top10Data s') \<and> length (top10Data s') = min 10 (length recs)"
  proof (cases "recs = []")
    case True
    then have "top10Data s = []" "s' = s"
      using a reachable_invariant [of engine s] by (auto simp: top10_effect_def)
    then show ?thesis using True by (simp add: sorted_desc_def)
  next
    case False
    then obtain t where t: "newTop10 engine recs m = Inr t" and s': "s' = s\<lparr>top10Data := t\<rparr>"
      using a by (auto simp: top10_effect_def split: sum.splits)
    show ?thesis using newTop10_sorted_length [OF assms t] s' by simp
  qed
  then show "sorted_desc m (top10Data s')" "length (top10Data s') = min 10 (length recs)"
    by simp_all
qed

theorem top10_sorted_desc_and_length_witness:
  "no_NaN M_EngagementScore example_data \<and>
   ShortUrl (example_data ! 0) \<noteq> None \<and> ShortUrl (example_data ! 1) \<noteq> None \<and>
   reachable binary_insertion_sort loaded_state \<and> data loaded_state = example_data \<and>
   rankingMetric loaded_state = M_EngagementScore \<and>
   (case newTop10 binary_insertion_sort example_data M_EngagementScore of
      Inl e \<Rightarrow> False
    | Inr t \<Rightarrow> sorted_desc M_EngagementScore t \<and> length t = 2) \<and>
   (case top10_effect binary_insertion_sort loaded_state of
      Inl e \<Rightarrow> False
    | Inr s' \<Rightarrow> sorted_desc M_EngagementScore (top10Data s') \<and> length (top10Data s') = 2)"
proof -
  note t = top10_sorted_desc_and_length
    [OF example_no_NaN [of M_EngagementScore], where engine = binary_insertion_sort]
  have l: "length example_data = 2" by (simp add: example_data_eval)
  have d: "ShortUrl (example_data ! 0) \<noteq> None \<and> ShortUrl (example_data ! 1) \<noteq> None"
    by (simp add: example_data_eval example_fields shortUrl_examples)
  from t example_ShortUrl_defined
  obtain t10 where t10: "newTop10 binary_insertion_sort example_data M_EngagementScore = Inr t10"
    by blast
  with t have p: "sorted_desc M_EngagementScore t10 \<and> length t10 = 2"
    using l by simp
  have e: "top10_effect binary_insertion_sort loaded_state = Inr (loaded_state\<lparr>top10Data := t10\<rparr>)"
    using t10 l by (simp add: top10_effect_def loaded_state_fields)
  show ?thesis
    using example_no_NaN [of M_EngagementScore] d reachable_loaded_state [of binary_insertion_sort]
      p by (simp add: loaded_state_fields t10 e)
qed

text \<open>
  The claim as first stated, for every record list, fails on a row with no views, likes
  or comments: its engagement score is \<open>0/0\<close>, NaN, every comparison with it counts as
  zero, and the list stays in ingestion order with the score 1 before the score 2. No
  arrangement of these records is sorted descending, whatever the engine does.
\<close>

theorem top10_unsorted_with_NaN:
  "reachable binary_insertion_sort zero_views_state \<and>
   (case top10_effect binary_insertion_sort zero_views_state of
      Inl e \<Rightarrow> False
    | Inr s' \<Rightarrow>
        map reel_id (top10Data s') = [1, 2, 3] \<and>
        map (metric_of M_EngagementScore) (top10Data s') = [Fin 1, NaN, Fin 2] \<and>
        \<not> sorted_desc (rankingMetric zero_views_state) (top10Data s')) \<and>
   \<not> (\<exists>ys. set ys = set (data zero_views_state) \<and>
          sorted_desc (rankingMetric zero_views_state) ys)"
proof (intro conjI)
  show "reachable binary_insertion_sort zero_views_state" by (rule reachable_zero_views_state)
  show "case top10_effect binary_insertion_sort zero_views_state of
      Inl e \<Rightarrow> False
    | Inr s' \<Rightarrow>
        map reel_id (top10Data s') = [1, 2, 3] \<and>
        map (metric_of M_EngagementScore) (top10Data s') = [Fin 1, NaN, Fin 2] \<and>
        \<not> sorted_desc (rankingMetric zero_views_state) (top10Data s')"
  proof -
    have "0 < length (data zero_views_state)"
      by (simp add: zero_views_state_fields zero_views_rows_def)
    then show ?thesis
      using zero_views_top10
      by (simp add: top10_effect_def zero_views_state_fields split: sum.splits)
  qed
  show "\<not> (\<exists>ys. set ys = set (data zero_views_state) \<and>
          sorted_desc (rankingMetric zero_views_state) ys)"
    unfolding zero_views_state_fields
  proof
    assume "\<exists>ys. set ys = set (processedData zero_views_rows) \<and> sorted_desc M_EngagementScore ys"
    then obtain ys where ys: "set ys = set (processedData zero_views_rows)"
      and s: "sorted_wrt (\<lambda>a b. jge (metric_of M_EngagementScore a) (metric_of M_EngagementScore b)) ys"
      unfolding sorted_desc_def by blast
    let ?a = "processedData zero_views_rows ! 0" and ?b = "processedData zero_views_rows ! 1"
    have "?a \<in> set ys" "?b \<in> set ys" unfolding ys by (simp_all add: zero_views_rows_def)
    then obtain i j where i: "i < length ys" "ys ! i = ?a" and j: "j < length ys" "ys ! j = ?b"
      by (auto simp: in_set_conv_nth)
    have "i \<noteq> j" using i j zero_views_keys by auto
    then consider "i < j" | "j < i" by arith
    then show False
    proof cases
      case 1
      have "jge (metric_of M_EngagementScore ?a) (metric_of M_EngagementScore ?b)"
        using sorted_wrt_nth_less [OF s 1 j(1)] unfolding i(2) j(2) .
      then show False by (simp only: zero_views_keys) simp
    next
      case 2
      have "jge (metric_of M_EngagementScore ?b) (metric_of M_EngagementScore ?a)"
        using sorted_wrt_nth_less [OF s 2 i(1)] unfolding i(2) j(2) .
      then show False by (simp only: zero_views_keys) simp
    qed
  qed
qed

subsection \<open>Stability\<close>




subsection \<open>The failed fetch\<close>

lemma stats_Nil:
  "stats [] =
     \<lparr>totalViews = Fin 0, totalLikes = Fin 0, totalComments = Fin 0,
      avgEngagementRate = NaN, avgEngagementScore = NaN\<rparr>"
  by (simp add: stats_def sumBy_def meanBy_def)

text \<open>
  Claim C8. When the fetch fails, in a state the component reaches while loading, the
  component leaves the loading state with an empty record list, and the statistics over
  that list are: total views, likes and comments 0, average engagement rate and score
  NaN.
\<close>

theorem fetch_failure_ready_empty_stats:
  assumes "reachable engine s" and "loading s"
  shows "step engine (FetchSettled Failed) s = Inr (s\<lparr>loading := False\<rparr>) \<and>
         loading (s\<lparr>loading := False\<rparr>) = False \<and>
         data (s\<lparr>loading := False\<rparr>) = [] \<and>
         stats (data (s\<lparr>loading := False\<rparr>)) =
           \<lparr>totalViews = Fin 0, totalLikes = Fin 0, totalComments = Fin 0,
            avgEngagementRate = NaN, avgEngagementScore = NaN\<rparr>"
  using assms reachable_invariant [OF assms(1)] by (simp add: stats_Nil)

theorem fetch_failure_ready_empty_stats_witness:
  "reachable binary_insertion_sort initial_state \<and> loading initial_state \<and>
   step binary_insertion_sort (FetchSettled Failed) initial_state =
     Inr (initial_state\<lparr>loading := False\<rparr>) \<and>
   loading (initial_state\<lparr>loading := False\<rparr>) = False \<and>
   data (initial_state\<lparr>loading := False\<rparr>) = [] \<and>
   stats (data (initial_state\<lparr>loading := False\<rparr>)) =
     \<lparr>totalViews = Fin 0, totalLikes = Fin 0, totalComments = Fin 0,
      avgEngagementRate = NaN, avgEngagementScore = NaN\<rparr>"
proof -
  have l: "loading initial_state" by (simp add: initial_state_def)
  note t = fetch_failure_ready_empty_stats [OF reachable_initial l, of binary_insertion_sort]
  show ?thesis
    using t reachable_initial [of binary_insertion_sort] l by blast
qed

end
